theory Spec2Isabelle
  imports Main
begin

section \<open>JavaScript values\<close>

text \<open>
  The migration code of \<^verbatim>\<open>src/module/migration.js\<close> works on the JSON documents of
  the host (entity data, patches). A value is one of JavaScript's JSON-shaped values.
  An object is an association list in property enumeration order, its keys distinct;
  a number is an integer (the code only compares with and writes \<open>0\<close>).
  Property names are ordinary names (no array-index names, no \<^verbatim>\<open>__proto__\<close>), so a new
  property is enumerated last.
\<close>

datatype jv =
    JUndefined
  | JNull
  | JBool bool
  | JNum int
  | JStr string
  | JArr "jv list"
  | JObj "(string \<times> jv) list"

type_synonym obj = "(string \<times> jv) list"

text \<open>What the code can throw: a \<^verbatim>\<open>TypeError\<close> of the language, the \<^verbatim>\<open>SyntaxError\<close> of
  \<^verbatim>\<open>JSON.parse\<close>, an error raised by a host helper, a rejected host call.\<close>

datatype js_error = TypeError | SyntaxError | HostError | Rejected

text \<open>\<^verbatim>\<open>!x\<close> is \<open>\<not> truthy x\<close>.\<close>

fun truthy :: "jv \<Rightarrow> bool" where
  "truthy JUndefined = False"
| "truthy JNull = False"
| "truthy (JBool b) = b"
| "truthy (JNum n) = (n \<noteq> 0)"
| "truthy (JStr s) = (s \<noteq> [])"
| "truthy (JArr xs) = True"
| "truthy (JObj kvs) = True"

fun isArray :: "jv \<Rightarrow> bool" where
  "isArray (JArr xs) = True"
| "isArray v = False"

text \<open>Reading an own property of an object: \<^verbatim>\<open>undefined\<close> when it is absent.\<close>

definition obj_get :: "obj \<Rightarrow> string \<Rightarrow> jv" where
  "obj_get kvs p = (case map_of kvs p of None \<Rightarrow> JUndefined | Some v \<Rightarrow> v)"

text \<open>\<^verbatim>\<open>o[p] = v\<close> on an object: an existing property keeps its place, a new one is
  enumerated last.\<close>

fun obj_set :: "obj \<Rightarrow> string \<Rightarrow> jv \<Rightarrow> obj" where
  "obj_set [] p v = [(p, v)]"
| "obj_set ((k, x) # kvs) p v = (if k = p then (k, v) # kvs else (k, x) # obj_set kvs p v)"

text \<open>
  The member read \<^verbatim>\<open>x.p\<close>, for the property names the program reads (\<^verbatim>\<open>data\<close>,
  \<^verbatim>\<open>type\<close>, \<^verbatim>\<open>specs\<close>, \<^verbatim>\<open>items\<close>, ...): a \<^verbatim>\<open>TypeError\<close> on \<^verbatim>\<open>undefined\<close> and
  \<^verbatim>\<open>null\<close>; on a boolean, number, string or array none of these names is a property,
  so the read gives \<^verbatim>\<open>undefined\<close>.
\<close>

fun get_prop :: "jv \<Rightarrow> string \<Rightarrow> js_error + jv" where
  "get_prop JUndefined p = Inl TypeError"
| "get_prop JNull p = Inl TypeError"
| "get_prop (JObj kvs) p = Inr (obj_get kvs p)"
| "get_prop v p = Inr JUndefined"

text \<open>
  The member write \<^verbatim>\<open>x.p = v\<close>, giving the updated \<open>x\<close>. The file is an ES module,
  hence strict code: the write throws a \<^verbatim>\<open>TypeError\<close> on \<^verbatim>\<open>undefined\<close> and
  \<^verbatim>\<open>null\<close>, and on a primitive. A named property written on an array is no part of
  its JSON value, which stays as it is.
\<close>

fun set_prop :: "jv \<Rightarrow> string \<Rightarrow> jv \<Rightarrow> js_error + jv" where
  "set_prop (JObj kvs) p v = Inr (JObj (obj_set kvs p v))"
| "set_prop (JArr xs) p v = Inr (JArr xs)"
| "set_prop x p v = Inl TypeError"

section \<open>Item rules\<close>

text \<open>The literal \<^verbatim>\<open>action\<close> of \<^verbatim>\<open>_migrateItemsAddActions\<close> (lines 217 to 247).\<close>

definition action :: jv where
  "action = JObj
    [(''type'', JStr ''''),
     (''category'', JStr ''''),
     (''attribute'', JStr ''''),
     (''attribute2'', JStr ''''),
     (''skill'', JStr ''''),
     (''spec'', JBool False),
     (''mod'', JNum 0),
     (''limit'', JObj
        [(''value'', JNum 0),
         (''attribute'', JStr '''')]),
     (''extended'', JBool False),
     (''damage'', JObj
        [(''type'', JStr ''''),
         (''element'', JStr ''''),
         (''value'', JNum 0),
         (''ap'', JObj
            [(''value'', JNum 0)]),
         (''attribute'', JStr '''')]),
     (''opposed'', JObj
        [(''type'', JStr ''''),
         (''attribute'', JStr ''''),
         (''attribute2'', JStr ''''),
         (''skill'', JStr ''''),
         (''mod'', JNum 0),
         (''description'', JStr '''')])]"

text \<open>
  \<^verbatim>\<open>_migrateItemsAddActions(item, updateData)\<close>. The rule mutates the accumulator
  \<^verbatim>\<open>updateData\<close>; the model returns the accumulator after the call, or the error
  thrown. (An Isabelle name cannot start with an underscore.)
\<close>

definition migrateItemsAddActions :: "jv \<Rightarrow> obj \<Rightarrow> js_error + obj" where
  "migrateItemsAddActions item updateData =
    (case get_prop item ''type'' of
       Inl e \<Rightarrow> Inl e
     | Inr t \<Rightarrow>
        if t \<in> set [JStr ''quality'', JStr ''cyberware''] then
          (case get_prop item ''data'' of
             Inl e \<Rightarrow> Inl e
           | Inr d \<Rightarrow>
              (case get_prop d ''action'' of
                 Inl e \<Rightarrow> Inl e
               | Inr a \<Rightarrow>
                  if a = JUndefined then
                    (let updateData1 =
                       (if \<not> truthy (obj_get updateData ''data'')
                        then obj_set updateData ''data'' (JObj [])
                        else updateData)
                     in case set_prop (obj_get updateData1 ''data'') ''action'' action of
                          Inl e \<Rightarrow> Inl e
                        | Inr d1 \<Rightarrow> Inr (obj_set updateData1 ''data'' d1))
                  else Inr updateData))
        else Inr updateData)"

text \<open>\<^verbatim>\<open>_migrateItemsAddCapacity(item, updateData)\<close>: it writes to
  \<^verbatim>\<open>updateData.data\<close> without creating it.\<close>

definition migrateItemsAddCapacity :: "jv \<Rightarrow> obj \<Rightarrow> js_error + obj" where
  "migrateItemsAddCapacity item updateData =
    (case get_prop item ''type'' of
       Inl e \<Rightarrow> Inl e
     | Inr t \<Rightarrow>
        if t \<in> set [JStr ''cyberware''] then
          (case get_prop item ''data'' of
             Inl e \<Rightarrow> Inl e
           | Inr d \<Rightarrow>
              (case get_prop d ''capacity'' of
                 Inl e \<Rightarrow> Inl e
               | Inr c \<Rightarrow>
                  if c = JUndefined then
                    (case set_prop (obj_get updateData ''data'') ''capacity'' (JNum 0) of
                       Inl e \<Rightarrow> Inl e
                     | Inr d1 \<Rightarrow> Inr (obj_set updateData ''data'' d1))
                  else Inr updateData))
        else Inr updateData)"

text \<open>\<^verbatim>\<open>migrateItemData(item)\<close>: the action rule, then the capacity rule, on an
  accumulator that starts empty.\<close>

definition migrateItemData :: "jv \<Rightarrow> js_error + obj" where
  "migrateItemData item =
    (case migrateItemsAddActions item [] of
       Inl e \<Rightarrow> Inl e
     | Inr updateData \<Rightarrow> migrateItemsAddCapacity item updateData)"

text \<open>Modelled from the spec: the host helper \<^verbatim>\<open>isObjectEmpty\<close> is not in
  \<^verbatim>\<open>src/\<close>. A patch is empty when it has no key.\<close>

definition isObjectEmpty :: "obj \<Rightarrow> bool" where
  "isObjectEmpty updateData = (updateData = [])"


section \<open>Actor rules\<close>

text \<open>
  \<^verbatim>\<open>s.split(c)\<close> at one character: every occurrence of \<open>c\<close> ends a piece, empty
  pieces are kept.
\<close>

fun js_split_char :: "char \<Rightarrow> string \<Rightarrow> string list" where
  "js_split_char c [] = [[]]"
| "js_split_char c (x # xs) =
     (if x = c then [] # js_split_char c xs
      else (case js_split_char c xs of
              [] \<Rightarrow> [[x]]
            | t # ts \<Rightarrow> (x # t) # ts))"

text \<open>
  Modelled from the spec: the host helper \<^verbatim>\<open>getProperty(object, key)\<close> is not in
  \<^verbatim>\<open>src/\<close>. It follows the dotted path \<open>key\<close> through nested objects and gives
  \<^verbatim>\<open>undefined\<close> as soon as a step is absent.
\<close>

fun get_parts :: "jv \<Rightarrow> string list \<Rightarrow> jv" where
  "get_parts target [] = target"
| "get_parts (JObj kvs) (p # ps) =
     (case map_of kvs p of None \<Rightarrow> JUndefined | Some v \<Rightarrow> get_parts v ps)"
| "get_parts target (p # ps) = JUndefined"

definition getProperty :: "jv \<Rightarrow> string \<Rightarrow> jv" where
  "getProperty object key =
     (if key = [] then JUndefined else get_parts object (js_split_char CHR ''.'' key))"

text \<open>\<^verbatim>\<open>_migrateActorOverflow(actor, updateData)\<close>.\<close>

definition migrateActorOverflow :: "jv \<Rightarrow> obj \<Rightarrow> js_error + obj" where
  "migrateActorOverflow actor updateData =
    (case get_prop actor ''data'' of
       Inl e \<Rightarrow> Inl e
     | Inr d \<Rightarrow>
        if getProperty d ''track.physical.overflow'' = JNum 0 then
          Inr (obj_set (obj_set updateData ''data.track.physical.overflow.value'' (JNum 0))
                 ''data.track.physical.overflow.max'' (JNum 0))
        else Inr updateData)"

text \<open>The characters of the class \<^verbatim>\<open>[,\/|.]\<close> of \<^verbatim>\<open>splitRegex\<close>.\<close>

definition is_delim :: "char \<Rightarrow> bool" where
  "is_delim c = (c \<in> set '',/|.'')"

text \<open>
  \<^verbatim>\<open>s.split(splitRegex)\<close> with \<^verbatim>\<open>splitRegex = /[,\/|.]+/\<close>: the pieces between the
  maximal runs of delimiters. A run at the start or at the end leaves an empty piece
  there, and the empty string gives one empty piece.
\<close>

function split_regex :: "string \<Rightarrow> string list" where
  "split_regex s =
     (case dropWhile (\<lambda>c. \<not> is_delim c) s of
        [] \<Rightarrow> [takeWhile (\<lambda>c. \<not> is_delim c) s]
      | r # rs \<Rightarrow> takeWhile (\<lambda>c. \<not> is_delim c) s # split_regex (dropWhile is_delim rs))"
  by pat_completeness auto

lemma dropWhile_Cons_length:
  assumes "dropWhile P s = r # rs"
  shows "length (dropWhile Q rs) < length s"
proof -
  have "length (dropWhile Q rs) \<le> length rs"
    by (rule length_dropWhile_le)
  also have "length rs < length (dropWhile P s)"
    using assms by simp
  also have "length (dropWhile P s) \<le> length s"
    by (rule length_dropWhile_le)
  finally show ?thesis .
qed

termination split_regex
  by (relation "measure length") (simp_all add: dropWhile_Cons_length)

declare split_regex.simps [simp del]

text \<open>\<^verbatim>\<open>val.specs.split(splitRegex).filter(s => s !== '')\<close>, for a string
  \<^verbatim>\<open>val.specs\<close>.\<close>

definition split_specs :: "string \<Rightarrow> string list" where
  "split_specs s = filter (\<lambda>t. t \<noteq> []) (split_regex s)"


text \<open>
  The callback \<^verbatim>\<open>reducer\<close>: a key whose \<^verbatim>\<open>specs\<close> is an array adds nothing to
  \<^verbatim>\<open>running\<close>; a string is split; anything else has no method \<^verbatim>\<open>split\<close>, and the
  call throws a \<^verbatim>\<open>TypeError\<close>.
\<close>

definition reducer :: "obj \<Rightarrow> string \<times> jv \<Rightarrow> js_error + obj" where
  "reducer running kv =
    (case get_prop (snd kv) ''specs'' of
       Inl e \<Rightarrow> Inl e
     | Inr specs \<Rightarrow>
        if \<not> isArray specs then
          (case specs of
             JStr s \<Rightarrow>
               Inr (obj_set running (fst kv)
                      (JObj [(''specs'', JArr (map JStr (split_specs s)))]))
           | _ \<Rightarrow> Inl TypeError)
        else Inr running)"

text \<open>\<^verbatim>\<open>entries.reduce(f, init)\<close>, where the callback can throw.\<close>

fun reduce :: "('b \<Rightarrow> 'a \<Rightarrow> js_error + 'b) \<Rightarrow> 'b \<Rightarrow> 'a list \<Rightarrow> js_error + 'b" where
  "reduce f running [] = Inr running"
| "reduce f running (x # xs) =
     (case f running x of
        Inl e \<Rightarrow> Inl e
      | Inr running1 \<Rightarrow> reduce f running1 xs)"

text \<open>The decimal name of an array index.\<close>

fun digit_char :: "nat \<Rightarrow> char" where
  "digit_char n = ''0123456789'' ! (n mod 10)"

function index_name :: "nat \<Rightarrow> string" where
  "index_name n = (if n < 10 then [digit_char n] else index_name (n div 10) @ [digit_char n])"
  by pat_completeness auto

termination index_name
  by (relation "measure id") simp_all

declare index_name.simps [simp del]

text \<open>
  \<^verbatim>\<open>Object.entries(x)\<close>: a \<^verbatim>\<open>TypeError\<close> on \<^verbatim>\<open>undefined\<close> and \<^verbatim>\<open>null\<close>, the own
  properties of an object in order, the indexed elements of an array or of a string,
  nothing for a boolean or a number.
\<close>

fun object_entries :: "jv \<Rightarrow> js_error + obj" where
  "object_entries JUndefined = Inl TypeError"
| "object_entries JNull = Inl TypeError"
| "object_entries (JObj kvs) = Inr kvs"
| "object_entries (JArr xs) = Inr (zip (map index_name [0..<length xs]) xs)"
| "object_entries (JStr s) = Inr (zip (map index_name [0..<length s]) (map (\<lambda>c. JStr [c]) s))"
| "object_entries v = Inr []"

text \<open>The chained member read \<^verbatim>\<open>x.p1.p2...\<close>, as in
  \<^verbatim>\<open>actor.data.skills.knowledge.street.value\<close>.\<close>

fun get_path :: "jv \<Rightarrow> string list \<Rightarrow> js_error + jv" where
  "get_path x [] = Inr x"
| "get_path x (p # ps) =
     (case get_prop x p of
        Inl e \<Rightarrow> Inl e
      | Inr y \<Rightarrow> get_path y ps)"

text \<open>One statement of \<^verbatim>\<open>_migrateActorSkills\<close>:
  \<^verbatim>\<open>updateData[key] = Object.entries(actor.<path>).reduce(reducer, {})\<close>.\<close>

definition migrate_group :: "jv \<Rightarrow> string \<Rightarrow> string list \<Rightarrow> obj \<Rightarrow> js_error + obj" where
  "migrate_group actor key path updateData =
    (case get_path actor path of
       Inl e \<Rightarrow> Inl e
     | Inr grp \<Rightarrow>
        (case object_entries grp of
           Inl e \<Rightarrow> Inl e
         | Inr entries \<Rightarrow>
            (case reduce reducer [] entries of
               Inl e \<Rightarrow> Inl e
             | Inr running \<Rightarrow> Inr (obj_set updateData key (JObj running)))))"

text \<open>\<^verbatim>\<open>_migrateActorSkills(actor, updateData)\<close>: the six statements in sequence; the
  first that throws ends the call.\<close>

definition migrateActorSkills :: "jv \<Rightarrow> obj \<Rightarrow> js_error + obj" where
  "migrateActorSkills actor updateData =
    (case migrate_group actor ''data.skills.active''
            [''data'', ''skills'', ''active''] updateData of
       Inl e \<Rightarrow> Inl e
     | Inr u1 \<Rightarrow>
    (case migrate_group actor ''data.skills.knowledge.street.value''
            [''data'', ''skills'', ''knowledge'', ''street'', ''value''] u1 of
       Inl e \<Rightarrow> Inl e
     | Inr u2 \<Rightarrow>
    (case migrate_group actor ''data.skills.knowledge.professional.value''
            [''data'', ''skills'', ''knowledge'', ''professional'', ''value''] u2 of
       Inl e \<Rightarrow> Inl e
     | Inr u3 \<Rightarrow>
    (case migrate_group actor ''data.skills.knowledge.academic.value''
            [''data'', ''skills'', ''knowledge'', ''academic'', ''value''] u3 of
       Inl e \<Rightarrow> Inl e
     | Inr u4 \<Rightarrow>
    (case migrate_group actor ''data.skills.knowledge.interests.value''
            [''data'', ''skills'', ''knowledge'', ''interests'', ''value''] u4 of
       Inl e \<Rightarrow> Inl e
     | Inr u5 \<Rightarrow>
        migrate_group actor ''data.skills.language.value''
            [''data'', ''skills'', ''language'', ''value''] u5)))))"

section \<open>Host helpers for merging\<close>

text \<open>
  Modelled from the spec: the host helpers \<^verbatim>\<open>setProperty\<close>, \<^verbatim>\<open>expandObject\<close> and
  \<^verbatim>\<open>mergeObject\<close> are not in \<^verbatim>\<open>src/\<close>. A patch maps dotted paths to replacement
  values; \<open>expandObject\<close> turns it into the nested object the paths describe, creating
  the objects on the way.
\<close>

fun set_parts :: "obj \<Rightarrow> string list \<Rightarrow> jv \<Rightarrow> obj" where
  "set_parts ob [] v = ob"
| "set_parts ob [k] v = obj_set ob k v"
| "set_parts ob (k # ks) v =
     obj_set ob k
       (case map_of ob k of
          Some (JObj inner) \<Rightarrow> JObj (set_parts inner ks v)
        | _ \<Rightarrow> JObj (set_parts [] ks v))"

fun expandObject :: "jv \<Rightarrow> jv"
  and expand_entries :: "obj \<Rightarrow> obj \<Rightarrow> obj" where
  "expandObject (JObj kvs) = JObj (expand_entries [] kvs)"
| "expandObject v = v"
| "expand_entries expanded [] = expanded"
| "expand_entries expanded ((k, v) # kvs) =
     expand_entries (set_parts expanded (js_split_char CHR ''.'' k) (expandObject v)) kvs"

text \<open>
  Modelled from the spec: the merge of \<^verbatim>\<open>mergeObject\<close>, key by key of the patch. Where
  both sides hold an object the merge goes down; everywhere else the patch's field
  overrides the original's, and a field the original lacks is inserted.
\<close>

function merge_entries :: "obj \<Rightarrow> obj \<Rightarrow> obj" where
  "merge_entries original [] = original"
| "merge_entries original ((k, v) # other) =
     merge_entries
       (obj_set original k
          (case v of
             JObj vo \<Rightarrow>
               (case map_of original k of
                  Some (JObj xo) \<Rightarrow> JObj (merge_entries xo vo)
                | _ \<Rightarrow> v)
           | _ \<Rightarrow> v))
       other"
  by pat_completeness auto

termination merge_entries
  by (relation "measure (\<lambda>(original, other). size_list (size_prod (\<lambda>k. 0) size) other)") auto

text \<open>
  Modelled from the spec: \<^verbatim>\<open>mergeObject(original, other)\<close> on JSON values. Both must be
  objects, or the helper throws; the dotted keys of \<open>other\<close> are expanded first. The
  values of the model are immutable, so the deep copy of \<^verbatim>\<open>inplace: false\<close> is the
  value itself.
\<close>

definition mergeObject :: "jv \<Rightarrow> jv \<Rightarrow> js_error + jv" where
  "mergeObject original other =
    (case original of
       JObj a \<Rightarrow>
         (case expandObject other of
            JObj b \<Rightarrow> Inr (JObj (merge_entries a b))
          | _ \<Rightarrow> Inl HostError)
     | _ \<Rightarrow> Inl HostError)"


section \<open>Entity migrators\<close>

text \<open>
  The callback of \<^verbatim>\<open>actor.items.map\<close> in \<^verbatim>\<open>migrateActorData\<close>, run over the owned
  items in order. The flag is the variable \<^verbatim>\<open>hasItemUpdates\<close> that the callback sets.
\<close>

fun migrate_items :: "bool \<Rightarrow> jv list \<Rightarrow> js_error + (bool \<times> jv list)" where
  "migrate_items hasItemUpdates [] = Inr (hasItemUpdates, [])"
| "migrate_items hasItemUpdates (i # rest) =
     (case migrateItemData i of
        Inl e \<Rightarrow> Inl e
      | Inr itemUpdate \<Rightarrow>
         if \<not> isObjectEmpty itemUpdate then
           (case mergeObject i (JObj itemUpdate) of
              Inl e \<Rightarrow> Inl e
            | Inr merged \<Rightarrow>
               (case migrate_items True rest of
                  Inl e \<Rightarrow> Inl e
                | Inr (h, items) \<Rightarrow> Inr (h, merged # items)))
         else
           (case migrate_items hasItemUpdates rest of
              Inl e \<Rightarrow> Inl e
            | Inr (h, items) \<Rightarrow> Inr (h, i # items)))"

text \<open>\<^verbatim>\<open>migrateActorData(actor)\<close>. A truthy \<^verbatim>\<open>actor.items\<close> that is no array has no
  method \<^verbatim>\<open>map\<close>. The line \<^verbatim>\<open>console.log(updateData)\<close> changes nothing in the patch
  and is left out.\<close>

definition migrateActorData :: "jv \<Rightarrow> js_error + obj" where
  "migrateActorData actor =
    (case migrateActorOverflow actor [] of
       Inl e \<Rightarrow> Inl e
     | Inr u1 \<Rightarrow>
    (case migrateActorSkills actor u1 of
       Inl e \<Rightarrow> Inl e
     | Inr updateData \<Rightarrow>
    (case get_prop actor ''items'' of
       Inl e \<Rightarrow> Inl e
     | Inr actor_items \<Rightarrow>
        if \<not> truthy actor_items then Inr updateData
        else
          (case actor_items of
             JArr its \<Rightarrow>
               (case migrate_items False its of
                  Inl e \<Rightarrow> Inl e
                | Inr (hasItemUpdates, items) \<Rightarrow>
                   if hasItemUpdates then Inr (obj_set updateData ''items'' (JArr items))
                   else Inr updateData)
           | _ \<Rightarrow> Inl TypeError))))"





section \<open>Orchestrator\<close>
















section \<open>The specification's wording\<close>

text \<open>
  The default action sub-document as the specification prints it (section 6,
  \<^emph>\<open>External interfaces\<close>), to compare with the literal \<open>action\<close> of the code.
\<close>

definition spec_default_action :: jv where
  "spec_default_action = JObj
    [(''type'', JStr ''''), (''category'', JStr ''''), (''attribute'', JStr ''''),
     (''attribute2'', JStr ''''), (''skill'', JStr ''''), (''spec'', JBool False),
     (''mod'', JNum 0),
     (''limit'', JObj [(''value'', JNum 0), (''attribute'', JStr '''')]),
     (''extended'', JBool False),
     (''damage'', JObj [(''type'', JStr ''''), (''element'', JStr ''''), (''value'', JNum 0),
        (''ap'', JObj [(''value'', JNum 0)]), (''attribute'', JStr '''')]),
     (''opposed'', JObj [(''type'', JStr ''''), (''attribute'', JStr ''''),
        (''attribute2'', JStr ''''), (''skill'', JStr ''''), (''mod'', JNum 0),
        (''description'', JStr '''')])]"

text \<open>
  The skill split as the specification words it: split on any run of the characters
  \<^verbatim>\<open>, / | .\<close>, tokens trimmed (\<^verbatim>\<open>String.prototype.trim\<close> on ASCII white space),
  empty tokens discarded.
\<close>

definition is_space :: "char \<Rightarrow> bool" where
  "is_space c = (c \<in> set [CHR '' '', CHR 0x09, CHR 0x0A, CHR 0x0B, CHR 0x0C, CHR 0x0D])"

definition trim :: "string \<Rightarrow> string" where
  "trim s = rev (dropWhile is_space (rev (dropWhile is_space s)))"

definition spec_split_specs :: "string \<Rightarrow> string list" where
  "spec_split_specs s = filter (\<lambda>t. t \<noteq> []) (map trim (split_regex s))"

section \<open>Notions for the statements\<close>

text \<open>
  Rules run one after the other on an accumulator that starts empty, in the order of
  the list: \<^verbatim>\<open>migrateItemData\<close> is the order action, capacity.
\<close>

definition run_rules :: "(jv \<Rightarrow> obj \<Rightarrow> js_error + obj) list \<Rightarrow> jv \<Rightarrow> js_error + obj" where
  "run_rules rules item = reduce (\<lambda>updateData rule. rule item updateData) [] rules"

text \<open>The pieces of a string between single delimiters, empty ones kept: what remains
  of \<open>split_regex\<close> when a run of delimiters is cut one delimiter at a time.\<close>

fun pieces :: "string \<Rightarrow> string list" where
  "pieces [] = [[]]"
| "pieces (c # s) =
     (if is_delim c then [] # pieces s
      else (case pieces s of
              [] \<Rightarrow> [[c]]
            | t # ts \<Rightarrow> (c # t) # ts))"

text \<open>
  The six skill groups of \<^verbatim>\<open>_migrateActorSkills\<close>: the key written to the patch and
  the path read from the actor, in the order of the six statements.
\<close>

definition skill_groups :: "(string \<times> string list) list" where
  "skill_groups =
    [(''data.skills.active'',
        [''data'', ''skills'', ''active'']),
     (''data.skills.knowledge.street.value'',
        [''data'', ''skills'', ''knowledge'', ''street'', ''value'']),
     (''data.skills.knowledge.professional.value'',
        [''data'', ''skills'', ''knowledge'', ''professional'', ''value'']),
     (''data.skills.knowledge.academic.value'',
        [''data'', ''skills'', ''knowledge'', ''academic'', ''value'']),
     (''data.skills.knowledge.interests.value'',
        [''data'', ''skills'', ''knowledge'', ''interests'', ''value'']),
     (''data.skills.language.value'',
        [''data'', ''skills'', ''language'', ''value''])]"

text \<open>
  A skill entry is in the legacy shape when its \<^verbatim>\<open>specs\<close> is no array; the entry the
  reducer writes for it holds the split of the string.
\<close>

definition legacy :: "string \<times> jv \<Rightarrow> bool" where
  "legacy kv = (case get_prop (snd kv) ''specs'' of Inr (JArr xs) \<Rightarrow> False | _ \<Rightarrow> True)"

definition split_entry :: "string \<times> jv \<Rightarrow> string \<times> jv" where
  "split_entry kv =
    (fst kv,
     JObj [(''specs'',
       (case get_prop (snd kv) ''specs'' of
          Inr (JStr s) \<Rightarrow> JArr (map JStr (split_specs s))
        | _ \<Rightarrow> JUndefined))])"

text \<open>
  An actor document for the examples: its overflow, its active skills and its owned
  items are given, the knowledge and language groups are empty.
\<close>

definition example_actor :: "jv \<Rightarrow> jv \<Rightarrow> jv \<Rightarrow> jv" where
  "example_actor overflow active owned =
    JObj
      [(''data'', JObj
         [(''track'', JObj [(''physical'', JObj [(''overflow'', overflow)])]),
          (''skills'', JObj
             [(''active'', active),
              (''knowledge'', JObj
                 [(''street'', JObj [(''value'', JObj [])]),
                  (''professional'', JObj [(''value'', JObj [])]),
                  (''academic'', JObj [(''value'', JObj [])]),
                  (''interests'', JObj [(''value'', JObj [])])]),
              (''language'', JObj [(''value'', JObj [])])])]),
       (''items'', owned)]"









section \<open>Member reads\<close>

lemma get_prop_Inl: "get_prop x p = Inl e \<longleftrightarrow> (x = JUndefined \<or> x = JNull) \<and> e = TypeError"
  by (cases x) auto

lemma get_prop_Inr_any: "get_prop x p = Inr v \<Longrightarrow> \<exists>w. get_prop x q = Inr w"
  by (cases x) auto

section \<open>The item rules\<close>

lemma action_literal: "action = spec_default_action"
  by (simp add: action_def spec_default_action_def)

lemma add_actions_fresh:
  assumes "get_prop item ''type'' = Inr t"
    and "t = JStr ''quality'' \<or> t = JStr ''cyberware''"
    and "get_prop item ''data'' = Inr d"
    and "get_prop d ''action'' = Inr JUndefined"
  shows "migrateItemsAddActions item [] = Inr [(''data'', JObj [(''action'', action)])]"
  using assms by (auto simp: migrateItemsAddActions_def obj_get_def)

lemma add_actions_skip:
  assumes "get_prop item ''type'' = Inr t"
    and "t \<noteq> JStr ''quality''"
    and "t \<noteq> JStr ''cyberware''"
  shows "migrateItemsAddActions item u = Inr u"
  using assms by (auto simp: migrateItemsAddActions_def)

lemma add_actions_defined:
  assumes "get_prop item ''type'' = Inr t"
    and "get_prop item ''data'' = Inr d"
    and "get_prop d ''action'' = Inr a"
    and "a \<noteq> JUndefined"
  shows "migrateItemsAddActions item u = Inr u"
  using assms by (auto simp: migrateItemsAddActions_def)

lemma add_capacity_skip:
  assumes "get_prop item ''type'' = Inr t"
    and "t \<noteq> JStr ''cyberware''"
  shows "migrateItemsAddCapacity item u = Inr u"
  using assms by (auto simp: migrateItemsAddCapacity_def)

lemma add_capacity_defined:
  assumes "get_prop item ''type'' = Inr t"
    and "get_prop item ''data'' = Inr d"
    and "get_prop d ''capacity'' = Inr c"
    and "c \<noteq> JUndefined"
  shows "migrateItemsAddCapacity item u = Inr u"
  using assms by (auto simp: migrateItemsAddCapacity_def)

lemma add_capacity_after_action:
  assumes "get_prop item ''type'' = Inr (JStr ''cyberware'')"
    and "get_prop item ''data'' = Inr d"
    and "get_prop d ''capacity'' = Inr JUndefined"
  shows "migrateItemsAddCapacity item [(''data'', JObj [(''action'', a)])]
    = Inr [(''data'', JObj [(''action'', a), (''capacity'', JNum 0)])]"
  using assms by (auto simp: migrateItemsAddCapacity_def obj_get_def)

lemma migrateItemData_run_rules:
  "migrateItemData item = run_rules [migrateItemsAddActions, migrateItemsAddCapacity] item"
  by (simp add: migrateItemData_def run_rules_def split: sum.splits)

text \<open>
  \<^bold>\<open>C8.\<close> For an item of type \<^verbatim>\<open>quality\<close> or \<^verbatim>\<open>cyberware\<close> whose \<^verbatim>\<open>data.action\<close> is
  undefined, \<^verbatim>\<open>migrateItemData\<close> returns a patch whose \<^verbatim>\<open>data.action\<close> is the default
  action literal of the specification, field for field (next to it stands at most the
  capacity). For an item of any other type the action rule leaves the patch alone,
  whatever \<^verbatim>\<open>data.action\<close> is, and the patch of \<^verbatim>\<open>migrateItemData\<close> is empty.
\<close>

theorem action_block_rule:
  "(get_prop item ''type'' = Inr t \<and> (t = JStr ''quality'' \<or> t = JStr ''cyberware'')
      \<and> get_prop item ''data'' = Inr d \<and> get_prop d ''action'' = Inr JUndefined
    \<longrightarrow> (\<exists>rest. migrateItemData item
              = Inr [(''data'', JObj ((''action'', spec_default_action) # rest))]
           \<and> (rest = [] \<or> rest = [(''capacity'', JNum 0)])))
   \<and> (get_prop item ''type'' = Inr t \<and> t \<noteq> JStr ''quality'' \<and> t \<noteq> JStr ''cyberware''
    \<longrightarrow> migrateItemsAddActions item u = Inr u \<and> migrateItemData item = Inr [])"
proof (intro conjI impI)
  assume a: "get_prop item ''type'' = Inr t \<and> (t = JStr ''quality'' \<or> t = JStr ''cyberware'')
      \<and> get_prop item ''data'' = Inr d \<and> get_prop d ''action'' = Inr JUndefined"
  then have act: "migrateItemsAddActions item [] = Inr [(''data'', JObj [(''action'', action)])]"
    by (intro add_actions_fresh) auto
  obtain c where c: "get_prop d ''capacity'' = Inr c"
    using a get_prop_Inr_any by blast
  show "\<exists>rest. migrateItemData item
          = Inr [(''data'', JObj ((''action'', spec_default_action) # rest))]
        \<and> (rest = [] \<or> rest = [(''capacity'', JNum 0)])"
  proof (cases "t = JStr ''cyberware'' \<and> c = JUndefined")
    case True
    then have "migrateItemData item
        = Inr [(''data'', JObj [(''action'', action), (''capacity'', JNum 0)])]"
      using a c act by (simp add: migrateItemData_def add_capacity_after_action)
    then show ?thesis by (simp add: action_literal)
  next
    case False
    then have "migrateItemsAddCapacity item [(''data'', JObj [(''action'', action)])]
        = Inr [(''data'', JObj [(''action'', action)])]"
      using a c by (auto intro: add_capacity_skip add_capacity_defined)
    then have "migrateItemData item = Inr [(''data'', JObj [(''action'', action)])]"
      using act by (simp add: migrateItemData_def)
    then show ?thesis by (simp add: action_literal)
  qed
next
  assume b: "get_prop item ''type'' = Inr t \<and> t \<noteq> JStr ''quality'' \<and> t \<noteq> JStr ''cyberware''"
  then show "migrateItemsAddActions item u = Inr u"
    by (auto intro: add_actions_skip)
  from b have "migrateItemsAddActions item [] = Inr []" "migrateItemsAddCapacity item [] = Inr []"
    by (auto intro: add_actions_skip add_capacity_skip)
  then show "migrateItemData item = Inr []"
    by (simp add: migrateItemData_def)
qed

theorem action_block_rule_witness:
  "(\<exists>rest. migrateItemData (JObj [(''type'', JStr ''quality''), (''data'', JObj [])])
      = Inr [(''data'', JObj ((''action'', spec_default_action) # rest))])
   \<and> migrateItemData (JObj [(''type'', JStr ''weapon''), (''data'', JObj [])]) = Inr []"
  using action_block_rule [of "JObj [(''type'', JStr ''quality''), (''data'', JObj [])]"
      "JStr ''quality''" "JObj []" "[]"]
    action_block_rule [of "JObj [(''type'', JStr ''weapon''), (''data'', JObj [])]"
      "JStr ''weapon''" "JObj []" "[]"]
  by (simp add: obj_get_def) blast

text \<open>
  \<^bold>\<open>C4\<close>, as the code has it. For a \<^verbatim>\<open>cyberware\<close> item whose \<^verbatim>\<open>data.capacity\<close> and
  \<^verbatim>\<open>data.action\<close> are both undefined, \<^verbatim>\<open>migrateItemData\<close> returns the patch with
  \<^verbatim>\<open>data.capacity = 0\<close> next to the default action. For a \<^verbatim>\<open>cyberware\<close> item whose
  capacity is defined the capacity rule adds nothing: the patch is the action rule's
  alone, and it is empty when \<^verbatim>\<open>data.action\<close> is defined too.
\<close>

theorem capacity_rule:
  "(get_prop item ''type'' = Inr (JStr ''cyberware'') \<and> get_prop item ''data'' = Inr d
      \<and> get_prop d ''capacity'' = Inr JUndefined \<and> get_prop d ''action'' = Inr JUndefined
    \<longrightarrow> migrateItemData item
          = Inr [(''data'', JObj [(''action'', action), (''capacity'', JNum 0)])])
   \<and> (get_prop item ''type'' = Inr (JStr ''cyberware'') \<and> get_prop item ''data'' = Inr d
      \<and> get_prop d ''capacity'' = Inr c \<and> c \<noteq> JUndefined
    \<longrightarrow> migrateItemsAddCapacity item u = Inr u
        \<and> migrateItemData item = migrateItemsAddActions item []
        \<and> (get_prop d ''action'' = Inr a \<and> a \<noteq> JUndefined \<longrightarrow> migrateItemData item = Inr []))"
proof (intro conjI impI)
  assume h: "get_prop item ''type'' = Inr (JStr ''cyberware'') \<and> get_prop item ''data'' = Inr d
      \<and> get_prop d ''capacity'' = Inr JUndefined \<and> get_prop d ''action'' = Inr JUndefined"
  then have "migrateItemsAddActions item [] = Inr [(''data'', JObj [(''action'', action)])]"
    by (intro add_actions_fresh) auto
  then show "migrateItemData item
      = Inr [(''data'', JObj [(''action'', action), (''capacity'', JNum 0)])]"
    using h by (simp add: migrateItemData_def add_capacity_after_action)
next
  assume h: "get_prop item ''type'' = Inr (JStr ''cyberware'') \<and> get_prop item ''data'' = Inr d
      \<and> get_prop d ''capacity'' = Inr c \<and> c \<noteq> JUndefined"
  then have skip: "migrateItemsAddCapacity item v = Inr v" for v
    by (auto intro: add_capacity_defined)
  show "migrateItemsAddCapacity item u = Inr u"
    by (rule skip)
  show same: "migrateItemData item = migrateItemsAddActions item []"
    by (simp add: migrateItemData_def skip split: sum.splits)
  assume "get_prop d ''action'' = Inr a \<and> a \<noteq> JUndefined"
  then have "migrateItemsAddActions item [] = Inr []"
    using h by (auto intro: add_actions_defined)
  then show "migrateItemData item = Inr []"
    using same by simp
qed

theorem capacity_rule_witness:
  "migrateItemData (JObj [(''type'', JStr ''cyberware''), (''data'', JObj [])])
     = Inr [(''data'', JObj [(''action'', action), (''capacity'', JNum 0)])]
   \<and> migrateItemData (JObj [(''type'', JStr ''cyberware''),
        (''data'', JObj [(''capacity'', JNum 4), (''action'', JObj [])])]) = Inr []"
proof (rule conjI)
  show "migrateItemData (JObj [(''type'', JStr ''cyberware''), (''data'', JObj [])])
     = Inr [(''data'', JObj [(''action'', action), (''capacity'', JNum 0)])]"
    using capacity_rule [of "JObj [(''type'', JStr ''cyberware''), (''data'', JObj [])]" "JObj []"]
    by (simp add: obj_get_def)
next
  let ?d = "JObj [(''capacity'', JNum 4), (''action'', JObj [])]"
  have "get_prop (JObj [(''type'', JStr ''cyberware''), (''data'', ?d)]) ''type''
      = Inr (JStr ''cyberware'')"
    and "get_prop (JObj [(''type'', JStr ''cyberware''), (''data'', ?d)]) ''data'' = Inr ?d"
    and "get_prop ?d ''capacity'' = Inr (JNum 4)" and "JNum 4 \<noteq> JUndefined"
    and "get_prop ?d ''action'' = Inr (JObj [])" and "JObj [] \<noteq> JUndefined"
    by (simp_all add: obj_get_def)
  with capacity_rule [of "JObj [(''type'', JStr ''cyberware''), (''data'', ?d)]" ?d "JNum 4"
      "[]" "JObj []"]
  show "migrateItemData (JObj [(''type'', JStr ''cyberware''), (''data'', ?d)]) = Inr []"
    by blast
qed

text \<open>
  As the specification states it, C4 fails at two items of type \<^verbatim>\<open>cyberware\<close>.
  With capacity \<open>4\<close> and no action the patch is not empty: the action rule has filled
  it. With an action and no capacity the capacity rule writes to \<^verbatim>\<open>updateData.data\<close>,
  which nothing has created, and the call throws.
\<close>

theorem capacity_rule_counterexample:
  "migrateItemData (JObj [(''type'', JStr ''cyberware''), (''data'', JObj [(''capacity'', JNum 4)])])
     = Inr [(''data'', JObj [(''action'', action)])]
   \<and> \<not> isObjectEmpty [(''data'', JObj [(''action'', action)])]
   \<and> migrateItemData (JObj [(''type'', JStr ''cyberware''),
        (''data'', JObj [(''action'', JObj [])])]) = Inl TypeError"
  by (simp add: migrateItemData_def migrateItemsAddActions_def migrateItemsAddCapacity_def
      obj_get_def isObjectEmpty_def)

text \<open>
  \<^bold>\<open>C3.\<close> The two item rules are not independent of their order. On a \<^verbatim>\<open>cyberware\<close>
  item with neither action nor capacity, the order of \<^verbatim>\<open>migrateItemData\<close> (action,
  then capacity) gives the patch with both fields, and the other order throws: the
  capacity rule needs the \<^verbatim>\<open>updateData.data\<close> that the action rule creates. So its
  result depends on what an earlier rule wrote, not on the item alone.
\<close>

theorem item_rules_order:
  "migrateItemData (JObj [(''type'', JStr ''cyberware''), (''data'', JObj [])])
     = Inr [(''data'', JObj [(''action'', action), (''capacity'', JNum 0)])]
   \<and> run_rules [migrateItemsAddActions, migrateItemsAddCapacity]
       (JObj [(''type'', JStr ''cyberware''), (''data'', JObj [])])
     = Inr [(''data'', JObj [(''action'', action), (''capacity'', JNum 0)])]
   \<and> run_rules [migrateItemsAddCapacity, migrateItemsAddActions]
       (JObj [(''type'', JStr ''cyberware''), (''data'', JObj [])])
     = Inl TypeError
   \<and> migrateItemsAddCapacity (JObj [(''type'', JStr ''cyberware''), (''data'', JObj [])]) []
     = Inl TypeError
   \<and> migrateItemsAddCapacity (JObj [(''type'', JStr ''cyberware''), (''data'', JObj [])])
       [(''data'', JObj [])]
     = Inr [(''data'', JObj [(''capacity'', JNum 0)])]"
  by (simp add: migrateItemData_def run_rules_def migrateItemsAddActions_def
      migrateItemsAddCapacity_def obj_get_def)

section \<open>The skill split\<close>

lemma pieces_not_Nil: "pieces s \<noteq> []"
  by (cases s) (simp_all split: list.splits)

lemma pieces_no_delim: "\<forall>c\<in>set s. \<not> is_delim c \<Longrightarrow> pieces s = [s]"
  by (induction s) simp_all

lemma pieces_append:
  assumes "is_delim d"
  shows "pieces (a @ d # b) = pieces a @ pieces b"
proof (induction a)
  case Nil
  show ?case using assms by simp
next
  case (Cons c a)
  obtain t ts where "pieces a = t # ts"
    using pieces_not_Nil [of a] by (cases "pieces a") auto
  then show ?case using Cons.IH by simp
qed

lemma pieces_dropWhile:
  "filter (\<lambda>t. t \<noteq> []) (pieces (dropWhile is_delim s)) = filter (\<lambda>t. t \<noteq> []) (pieces s)"
  by (induction s) (simp_all split: list.splits)

lemma split_regex_pieces:
  "filter (\<lambda>t. t \<noteq> []) (split_regex s) = filter (\<lambda>t. t \<noteq> []) (pieces s)"
proof (induction s rule: split_regex.induct)
  case (1 s)
  let ?t = "takeWhile (\<lambda>c. \<not> is_delim c) s"
  show ?case
  proof (cases "dropWhile (\<lambda>c. \<not> is_delim c) s")
    case Nil
    then have all: "\<forall>c\<in>set s. \<not> is_delim c"
      by (simp add: dropWhile_eq_Nil_conv)
    then have "?t = s"
      by (simp add: takeWhile_eq_all_conv)
    moreover have "split_regex s = [?t]"
      by (subst split_regex.simps) (simp only: Nil list.case)
    ultimately have "split_regex s = [s]"
      by simp
    then show ?thesis
      using all by (simp add: pieces_no_delim)
  next
    case (Cons r rs)
    have s: "s = ?t @ r # rs"
      using Cons takeWhile_dropWhile_id [of "\<lambda>c. \<not> is_delim c" s] by simp
    have "\<not> \<not> is_delim (hd (dropWhile (\<lambda>c. \<not> is_delim c) s))"
      by (rule hd_dropWhile) (simp add: Cons)
    then have r: "is_delim r"
      using Cons by simp
    have t: "\<forall>c\<in>set ?t. \<not> is_delim c"
      by (auto dest: set_takeWhileD)
    have "pieces s = pieces ?t @ pieces rs"
      by (subst s) (rule pieces_append [OF r])
    then have p: "pieces s = ?t # pieces rs"
      using t by (simp add: pieces_no_delim)
    have "split_regex s = ?t # split_regex (dropWhile is_delim rs)"
      by (subst split_regex.simps) (simp only: Cons list.case)
    then show ?thesis
      using "1.IH" [OF Cons] p by (simp add: pieces_dropWhile)
  qed
qed

lemma split_specs_pieces: "split_specs s = filter (\<lambda>t. t \<noteq> []) (pieces s)"
  by (simp add: split_specs_def split_regex_pieces)

lemma split_specs_token:
  assumes "s \<noteq> []" and "\<forall>c\<in>set s. \<not> is_delim c"
  shows "split_specs s = [s]"
  using assms by (simp add: split_specs_pieces pieces_no_delim)

lemma split_specs_append:
  assumes "is_delim d"
  shows "split_specs (a @ d # b) = split_specs a @ split_specs b"
  using assms by (simp add: split_specs_pieces pieces_append)

lemma reducer_string:
  assumes "get_prop val ''specs'' = Inr (JStr s)"
  shows "reducer running (key, val)
    = Inr (obj_set running key (JObj [(''specs'', JArr (map JStr (split_specs s)))]))"
  using assms by (simp add: reducer_def)

lemma reducer_array:
  assumes "get_prop val ''specs'' = Inr (JArr xs)"
  shows "reducer running (key, val) = Inr running"
  using assms by (simp add: reducer_def)

text \<open>
  \<^bold>\<open>C6\<close>, as the code has it. For a skill entry whose \<^verbatim>\<open>specs\<close> is a string the reducer
  writes, under the entry's key, the string split on any run of the delimiters comma,
  slash, pipe and dot, empty tokens discarded: a string without delimiter is one token,
  kept as it is (nothing is trimmed), a delimiter separates the tokens on its two
  sides, \<^verbatim>\<open>"Pistols,Pistols/Light"\<close> gives the three names and \<^verbatim>\<open>""\<close> gives none. For an
  entry whose \<^verbatim>\<open>specs\<close> is an array the reducer writes nothing.
\<close>

theorem skill_split:
  "(get_prop val ''specs'' = Inr (JStr s)
      \<longrightarrow> reducer running (key, val)
          = Inr (obj_set running key (JObj [(''specs'', JArr (map JStr (split_specs s)))])))
   \<and> (get_prop val ''specs'' = Inr (JArr xs) \<longrightarrow> reducer running (key, val) = Inr running)
   \<and> (s \<noteq> [] \<and> (\<forall>c\<in>set s. \<not> is_delim c) \<longrightarrow> split_specs s = [s])
   \<and> (is_delim d \<longrightarrow> split_specs (a @ d # b) = split_specs a @ split_specs b)
   \<and> is_delim CHR '','' \<and> is_delim CHR ''/'' \<and> is_delim CHR ''|'' \<and> is_delim CHR ''.''
   \<and> split_specs ''Pistols,Pistols/Light'' = [''Pistols'', ''Pistols'', ''Light'']
   \<and> split_specs '''' = []"
proof (intro conjI impI)
  show "split_specs ''Pistols,Pistols/Light'' = [''Pistols'', ''Pistols'', ''Light'']"
    by (simp add: split_specs_pieces is_delim_def)
  show "split_specs '''' = []"
    by (simp add: split_specs_pieces)
qed (simp_all add: reducer_string reducer_array split_specs_token split_specs_append is_delim_def)

theorem skill_split_witness:
  "reducer [] (''pistols'', JObj [(''specs'', JStr ''Semi-Automatics'')])
     = Inr [(''pistols'', JObj [(''specs'', JArr [JStr ''Semi-Automatics''])])]
   \<and> reducer [] (''pistols'', JObj [(''specs'', JArr [JStr ''already'', JStr ''array''])]) = Inr []
   \<and> split_specs ''a b/ c'' = [''a b'', '' c'']"
proof (intro conjI)
  have tok: "split_specs ''Semi-Automatics'' = [''Semi-Automatics'']"
    using skill_split [of _ "''Semi-Automatics''"] by (simp add: is_delim_def)
  have "get_prop (JObj [(''specs'', JStr ''Semi-Automatics'')]) ''specs''
      = Inr (JStr ''Semi-Automatics'')"
    by (simp add: obj_get_def)
  with skill_split [of "JObj [(''specs'', JStr ''Semi-Automatics'')]" "''Semi-Automatics''"
      "[]" "''pistols''"]
  show "reducer [] (''pistols'', JObj [(''specs'', JStr ''Semi-Automatics'')])
     = Inr [(''pistols'', JObj [(''specs'', JArr [JStr ''Semi-Automatics''])])]"
    by (simp add: tok)
next
  have "get_prop (JObj [(''specs'', JArr [JStr ''already'', JStr ''array''])]) ''specs''
      = Inr (JArr [JStr ''already'', JStr ''array''])"
    by (simp add: obj_get_def)
  with skill_split [of "JObj [(''specs'', JArr [JStr ''already'', JStr ''array''])]" _
      "[]" "''pistols''" "[JStr ''already'', JStr ''array'']"]
  show "reducer [] (''pistols'', JObj [(''specs'', JArr [JStr ''already'', JStr ''array''])])
      = Inr []"
    by blast
next
  have d: "is_delim CHR ''/''"
    by (simp add: is_delim_def)
  have "split_specs (''a b'' @ CHR ''/'' # '' c'') = split_specs ''a b'' @ split_specs '' c''"
    using skill_split [of _ _ _ _ _ "CHR ''/''" "''a b''" "'' c''"] d by blast
  moreover have "split_specs ''a b'' = [''a b'']"
    using skill_split [of _ "''a b''"] by (simp add: is_delim_def)
  moreover have "split_specs '' c'' = ['' c'']"
    using skill_split [of _ "'' c''"] by (simp add: is_delim_def)
  ultimately show "split_specs ''a b/ c'' = [''a b'', '' c'']"
    by simp
qed

text \<open>
  As the specification states it, C6 has the tokens trimmed. The code does not
  trim: the space after the comma stays in the second token.
\<close>

theorem skill_split_counterexample:
  "split_specs ''Pistols, Pistols/Light'' = [''Pistols'', '' Pistols'', ''Light'']
   \<and> spec_split_specs ''Pistols, Pistols/Light'' = [''Pistols'', ''Pistols'', ''Light'']
   \<and> reducer [] (''firearms'', JObj [(''specs'', JStr ''Pistols, Pistols/Light'')])
     = Inr [(''firearms'',
             JObj [(''specs'', JArr [JStr ''Pistols'', JStr '' Pistols'', JStr ''Light''])])]"
proof (intro conjI)
  show s: "split_specs ''Pistols, Pistols/Light'' = [''Pistols'', '' Pistols'', ''Light'']"
    by (simp add: split_specs_pieces is_delim_def)
  show "reducer [] (''firearms'', JObj [(''specs'', JStr ''Pistols, Pistols/Light'')])
     = Inr [(''firearms'',
             JObj [(''specs'', JArr [JStr ''Pistols'', JStr '' Pistols'', JStr ''Light''])])]"
    by (simp add: reducer_def obj_get_def s)
  show "spec_split_specs ''Pistols, Pistols/Light'' = [''Pistols'', ''Pistols'', ''Light'']"
    by (simp add: spec_split_specs_def split_regex.simps is_delim_def trim_def is_space_def)
qed

section \<open>The skill rule\<close>

lemma obj_set_fresh: "k \<notin> fst ` set kvs \<Longrightarrow> obj_set kvs k v = kvs @ [(k, v)]"
  by (induction kvs) auto

lemma obj_get_obj_set: "obj_get (obj_set kvs k v) k' = (if k' = k then v else obj_get kvs k')"
  by (induction kvs) (auto simp: obj_get_def)

lemma reducer_cases:
  assumes "reducer running kv = Inr r"
  shows "(\<not> legacy kv \<and> r = running)
    \<or> (legacy kv \<and> r = obj_set running (fst kv) (snd (split_entry kv)))"
  using assms
  by (auto simp: reducer_def legacy_def split_entry_def split: sum.splits jv.splits if_splits)

lemma reducer_error: "reducer running kv = Inl e \<Longrightarrow> e = TypeError"
  by (auto simp: reducer_def get_prop_Inl split: sum.splits jv.splits if_splits)

lemma reducer_defined:
  assumes "get_prop (snd kv) ''specs'' = Inr (JArr xs) \<or> get_prop (snd kv) ''specs'' = Inr (JStr s)"
  shows "\<exists>r. reducer running kv = Inr r"
  using assms by (auto simp: reducer_def)

lemma reduce_reducer:
  assumes "reduce reducer running entries = Inr r"
    and "distinct (map fst entries)"
    and "fst ` set running \<inter> fst ` set entries = {}"
  shows "r = running @ map split_entry (filter legacy entries)"
  using assms
proof (induction entries arbitrary: running)
  case Nil
  then show ?case by simp
next
  case (Cons kv entries)
  from Cons.prems(1) obtain r1 where r1: "reducer running kv = Inr r1"
    and rest: "reduce reducer r1 entries = Inr r"
    by (auto split: sum.splits)
  have fresh: "fst kv \<notin> fst ` set running"
    using Cons.prems(3) by auto
  show ?case
  proof (cases "legacy kv")
    case False
    then have "r1 = running"
      using reducer_cases [OF r1] by simp
    then have "r = running @ map split_entry (filter legacy entries)"
      using Cons.IH [of running] rest Cons.prems(2,3) by auto
    then show ?thesis using False by simp
  next
    case True
    then have "r1 = obj_set running (fst kv) (snd (split_entry kv))"
      using reducer_cases [OF r1] by simp
    then have r1': "r1 = running @ [split_entry kv]"
      using fresh by (simp add: obj_set_fresh split_entry_def)
    have "fst ` set r1 \<inter> fst ` set entries = {}"
      using Cons.prems(2,3) by (auto simp: r1' split_entry_def)
    then have "r = r1 @ map split_entry (filter legacy entries)"
      using Cons.IH [of r1] rest Cons.prems(2) by simp
    then show ?thesis using True r1' by simp
  qed
qed

lemma reduce_reducer_error: "reduce reducer running entries = Inl e \<Longrightarrow> e = TypeError"
  by (induction entries arbitrary: running) (auto split: sum.splits dest: reducer_error)

lemma reduce_reducer_defined:
  assumes "\<forall>kv\<in>set entries. \<exists>xs s.
      get_prop (snd kv) ''specs'' = Inr (JArr xs) \<or> get_prop (snd kv) ''specs'' = Inr (JStr s)"
  shows "\<exists>r. reduce reducer running entries = Inr r"
  using assms
proof (induction entries arbitrary: running)
  case Nil
  show ?case by simp
next
  case (Cons kv entries)
  then obtain r1 where "reducer running kv = Inr r1"
    using reducer_defined [of kv _ _ running] by auto
  then show ?case using Cons by simp
qed

lemma get_path_error: "get_path x ps = Inl e \<Longrightarrow> e = TypeError"
  by (induction ps arbitrary: x) (auto simp: get_prop_Inl split: sum.splits)

lemma object_entries_error: "object_entries g = Inl e \<Longrightarrow> e = TypeError \<and> (g = JUndefined \<or> g = JNull)"
  by (cases g) auto

lemma migrate_group_error: "migrate_group actor key path u = Inl e \<Longrightarrow> e = TypeError"
  by (auto simp: migrate_group_def split: sum.splits
      dest: get_path_error object_entries_error reduce_reducer_error)

lemma migrate_group_present:
  assumes "migrate_group actor key path u = Inr u'"
  shows "\<exists>g. get_path actor path = Inr g \<and> g \<noteq> JUndefined \<and> g \<noteq> JNull"
  using assms by (auto simp: migrate_group_def split: sum.splits)

lemma migrate_group_frame:
  assumes "migrate_group actor key path u = Inr u'" and "k \<noteq> key"
  shows "obj_get u' k = obj_get u k"
  using assms by (auto simp: migrate_group_def obj_get_obj_set split: sum.splits)

lemma migrate_group_result:
  assumes "migrate_group actor key path u = Inr u'"
    and "get_path actor path = Inr (JObj entries)"
    and "distinct (map fst entries)"
  shows "obj_get u' key = JObj (map split_entry (filter legacy entries))"
proof -
  from assms(1,2) obtain r where r: "reduce reducer [] entries = Inr r"
    and u': "u' = obj_set u key (JObj r)"
    by (auto simp: migrate_group_def split: sum.splits)
  have "r = [] @ map split_entry (filter legacy entries)"
    by (rule reduce_reducer [OF r assms(3)]) simp
  then show ?thesis by (simp add: u' obj_get_obj_set)
qed

lemma migrate_group_defined:
  assumes "get_path actor path = Inr (JObj entries)"
    and "\<forall>kv\<in>set entries. \<exists>xs s.
      get_prop (snd kv) ''specs'' = Inr (JArr xs) \<or> get_prop (snd kv) ''specs'' = Inr (JStr s)"
  shows "\<exists>u'. migrate_group actor key path u = Inr u'"
  using assms(1) reduce_reducer_defined [OF assms(2), of "[]"]
  by (auto simp: migrate_group_def)

lemma migrateActorSkills_groups:
  "migrateActorSkills actor u
    = reduce (\<lambda>u g. migrate_group actor (fst g) (snd g) u) u skill_groups"
  by (simp add: migrateActorSkills_def skill_groups_def split: sum.splits)

lemma groups_error:
  "reduce (\<lambda>u g. migrate_group actor (fst g) (snd g) u) u gs = Inl e \<Longrightarrow> e = TypeError"
  by (induction gs arbitrary: u) (auto split: sum.splits dest: migrate_group_error)

lemma groups_present:
  assumes "reduce (\<lambda>u g. migrate_group actor (fst g) (snd g) u) u gs = Inr u'"
    and "g \<in> set gs"
  shows "\<exists>v. get_path actor (snd g) = Inr v \<and> v \<noteq> JUndefined \<and> v \<noteq> JNull"
  using assms
proof (induction gs arbitrary: u)
  case Nil
  then show ?case by simp
next
  case (Cons h gs)
  from Cons.prems(1) obtain u1 where h: "migrate_group actor (fst h) (snd h) u = Inr u1"
    and rest: "reduce (\<lambda>u g. migrate_group actor (fst g) (snd g) u) u1 gs = Inr u'"
    by (auto split: sum.splits)
  show ?case
  proof (cases "g = h")
    case True
    then show ?thesis using migrate_group_present [OF h] by simp
  next
    case False
    then show ?thesis using Cons.IH [OF rest] Cons.prems(2) by simp
  qed
qed

lemma groups_frame:
  assumes "reduce (\<lambda>u g. migrate_group actor (fst g) (snd g) u) u gs = Inr u'"
    and "k \<notin> fst ` set gs"
  shows "obj_get u' k = obj_get u k"
  using assms
proof (induction gs arbitrary: u)
  case Nil
  then show ?case by simp
next
  case (Cons h gs)
  from Cons.prems(1) obtain u1 where h: "migrate_group actor (fst h) (snd h) u = Inr u1"
    and rest: "reduce (\<lambda>u g. migrate_group actor (fst g) (snd g) u) u1 gs = Inr u'"
    by (auto split: sum.splits)
  have "obj_get u' k = obj_get u1 k"
    using Cons.IH [OF rest] Cons.prems(2) by simp
  also have "obj_get u1 k = obj_get u k"
    using migrate_group_frame [OF h] Cons.prems(2) by simp
  finally show ?case .
qed

lemma groups_result:
  assumes "reduce (\<lambda>u g. migrate_group actor (fst g) (snd g) u) u gs = Inr u'"
    and "distinct (map fst gs)"
    and "(key, path) \<in> set gs"
    and "get_path actor path = Inr (JObj entries)"
    and "distinct (map fst entries)"
  shows "obj_get u' key = JObj (map split_entry (filter legacy entries))"
  using assms(1,2,3)
proof (induction gs arbitrary: u)
  case Nil
  then show ?case by simp
next
  case (Cons h gs)
  from Cons.prems(1) obtain u1 where h: "migrate_group actor (fst h) (snd h) u = Inr u1"
    and rest: "reduce (\<lambda>u g. migrate_group actor (fst g) (snd g) u) u1 gs = Inr u'"
    by (auto split: sum.splits)
  show ?case
  proof (cases "h = (key, path)")
    case True
    then have "key \<notin> fst ` set gs"
      using Cons.prems(2) by auto
    then have "obj_get u' key = obj_get u1 key"
      using groups_frame [OF rest] by simp
    also have "obj_get u1 key = JObj (map split_entry (filter legacy entries))"
      using migrate_group_result [of actor key path u u1 entries] h True assms(4,5) by simp
    finally show ?thesis .
  next
    case False
    then show ?thesis using Cons.IH [OF rest] Cons.prems(2,3) by simp
  qed
qed

lemma groups_defined:
  assumes "\<forall>g\<in>set gs. \<exists>entries. get_path actor (snd g) = Inr (JObj entries)
      \<and> (\<forall>kv\<in>set entries. \<exists>xs s.
            get_prop (snd kv) ''specs'' = Inr (JArr xs) \<or> get_prop (snd kv) ''specs'' = Inr (JStr s))"
  shows "\<exists>u'. reduce (\<lambda>u g. migrate_group actor (fst g) (snd g) u) u gs = Inr u'"
  using assms
proof (induction gs arbitrary: u)
  case Nil
  show ?case by simp
next
  case (Cons h gs)
  then obtain u1 where "migrate_group actor (fst h) (snd h) u = Inr u1"
    using migrate_group_defined [of actor "snd h" _ "fst h" u] by fastforce
  then show ?case using Cons by simp
qed

lemma skill_groups_distinct: "distinct (map fst skill_groups)"
  by (simp add: skill_groups_def)

text \<open>
  \<^bold>\<open>C5\<close>, as the code has it. When each of the six skill groups is an object whose
  entries have a string or an array for \<^verbatim>\<open>specs\<close>, the skill rule returns; and whenever
  it returns, the object it writes for a group holds the keys whose \<^verbatim>\<open>specs\<close> was no
  array, and only those, in the order of the group, each with the split of its
  string. The keys that were migrated already are left out of the patch.
\<close>

theorem skill_groups_patch:
  "((\<forall>g\<in>set skill_groups. \<exists>entries. get_path actor (snd g) = Inr (JObj entries)
        \<and> (\<forall>kv\<in>set entries. \<exists>xs s.
              get_prop (snd kv) ''specs'' = Inr (JArr xs)
              \<or> get_prop (snd kv) ''specs'' = Inr (JStr s)))
      \<longrightarrow> (\<exists>u'. migrateActorSkills actor u = Inr u'))
   \<and> (migrateActorSkills actor u = Inr u' \<and> (key, path) \<in> set skill_groups
        \<and> get_path actor path = Inr (JObj entries) \<and> distinct (map fst entries)
      \<longrightarrow> obj_get u' key = JObj (map split_entry (filter legacy entries)))"
proof (intro conjI impI)
  assume "\<forall>g\<in>set skill_groups. \<exists>entries. get_path actor (snd g) = Inr (JObj entries)
        \<and> (\<forall>kv\<in>set entries. \<exists>xs s.
              get_prop (snd kv) ''specs'' = Inr (JArr xs)
              \<or> get_prop (snd kv) ''specs'' = Inr (JStr s))"
  then show "\<exists>u'. migrateActorSkills actor u = Inr u'"
    unfolding migrateActorSkills_groups by (rule groups_defined)
next
  assume h: "migrateActorSkills actor u = Inr u' \<and> (key, path) \<in> set skill_groups
        \<and> get_path actor path = Inr (JObj entries) \<and> distinct (map fst entries)"
  then have "reduce (\<lambda>u g. migrate_group actor (fst g) (snd g) u) u skill_groups = Inr u'"
    by (simp add: migrateActorSkills_groups)
  then show "obj_get u' key = JObj (map split_entry (filter legacy entries))"
    using h by (intro groups_result [OF _ skill_groups_distinct]) auto
qed

theorem skill_groups_patch_witness:
  "\<exists>u'. migrateActorSkills
      (example_actor (JNum 0)
         (JObj [(''a'', JObj [(''specs'', JArr [JStr ''x''])]),
                (''b'', JObj [(''specs'', JStr ''y,z'')])])
         (JArr [])) [] = Inr u'
    \<and> obj_get u' ''data.skills.active''
      = JObj [(''b'', JObj [(''specs'', JArr [JStr ''y'', JStr ''z''])])]"
proof -
  let ?entries = "[(''a'', JObj [(''specs'', JArr [JStr ''x''])]),
                   (''b'', JObj [(''specs'', JStr ''y,z'')])]"
  let ?actor = "example_actor (JNum 0) (JObj ?entries) (JArr [])"
  have groups: "\<forall>g\<in>set skill_groups. \<exists>entries. get_path ?actor (snd g) = Inr (JObj entries)
        \<and> (\<forall>kv\<in>set entries. \<exists>xs s.
              get_prop (snd kv) ''specs'' = Inr (JArr xs)
              \<or> get_prop (snd kv) ''specs'' = Inr (JStr s))"
    by (simp add: skill_groups_def example_actor_def obj_get_def)
  then obtain u' where u': "migrateActorSkills ?actor [] = Inr u'"
    using skill_groups_patch [of ?actor "[]"] by blast
  have "(''data.skills.active'', [''data'', ''skills'', ''active'']) \<in> set skill_groups"
    and "get_path ?actor [''data'', ''skills'', ''active''] = Inr (JObj ?entries)"
    and "distinct (map fst ?entries)"
    by (simp_all add: skill_groups_def example_actor_def obj_get_def)
  then have "obj_get u' ''data.skills.active'' = JObj (map split_entry (filter legacy ?entries))"
    using skill_groups_patch [of ?actor "[]" u' "''data.skills.active''"
        "[''data'', ''skills'', ''active'']" ?entries] u'
    by blast
  moreover have "map split_entry (filter legacy ?entries)
      = [(''b'', JObj [(''specs'', JArr [JStr ''y'', JStr ''z''])])]"
    by (simp add: legacy_def split_entry_def obj_get_def split_specs_pieces is_delim_def)
  ultimately show ?thesis using u' by simp
qed

text \<open>
  As the specification states it, C5 keeps the key set of the group. In the
  group with keys \<open>a\<close> (migrated) and \<open>b\<close> (a string), the object written to the patch
  has the key \<open>b\<close> alone.
\<close>

theorem skill_groups_patch_counterexample:
  "migrateActorSkills
      (example_actor (JNum 0)
         (JObj [(''a'', JObj [(''specs'', JArr [JStr ''x''])]),
                (''b'', JObj [(''specs'', JStr ''y,z'')])])
         (JArr [])) []
    = Inr [(''data.skills.active'',
              JObj [(''b'', JObj [(''specs'', JArr [JStr ''y'', JStr ''z''])])]),
           (''data.skills.knowledge.street.value'', JObj []),
           (''data.skills.knowledge.professional.value'', JObj []),
           (''data.skills.knowledge.academic.value'', JObj []),
           (''data.skills.knowledge.interests.value'', JObj []),
           (''data.skills.language.value'', JObj [])]
   \<and> map fst [(''b'', JObj [(''specs'', JArr [JStr ''y'', JStr ''z''])])] \<noteq> [''a'', ''b'']"
  by (simp add: migrateActorSkills_def migrate_group_def example_actor_def obj_get_def
      reducer_def split_specs_pieces is_delim_def)

text \<open>
  \<^bold>\<open>C10.\<close> When one of the six skill groups is missing from an actor (the read of the
  group gives \<^verbatim>\<open>undefined\<close>, or throws because a parent is missing),
  \<^verbatim>\<open>migrateActorData\<close> throws a \<^verbatim>\<open>TypeError\<close>: it returns no patch.
\<close>

theorem missing_group_throws:
  assumes "(key, path) \<in> set skill_groups"
    and "get_path actor path = Inr JUndefined \<or> get_path actor path = Inl e"
  shows "migrateActorData actor = Inl TypeError"
proof -
  have skills: "migrateActorSkills actor u = Inl TypeError" for u
  proof (cases "migrateActorSkills actor u")
    case (Inl e')
    then show ?thesis
      using groups_error [of actor u skill_groups e'] by (simp add: migrateActorSkills_groups)
  next
    case (Inr u')
    then have "\<exists>v. get_path actor (snd (key, path)) = Inr v \<and> v \<noteq> JUndefined \<and> v \<noteq> JNull"
      using assms(1) by (intro groups_present [of actor u skill_groups u'])
        (simp_all add: migrateActorSkills_groups)
    then show ?thesis using assms(2) by auto
  qed
  show ?thesis
  proof (cases "migrateActorOverflow actor []")
    case (Inl e')
    then have "e' = TypeError"
      by (auto simp: migrateActorOverflow_def get_prop_Inl split: sum.splits if_splits)
    then show ?thesis using Inl by (simp add: migrateActorData_def)
  next
    case (Inr u1)
    then show ?thesis by (simp add: migrateActorData_def skills)
  qed
qed

theorem missing_group_throws_witness:
  "migrateActorData (JObj [(''data'', JObj [(''skills'', JObj
       [(''active'', JObj []),
        (''knowledge'', JObj
           [(''street'', JObj [(''value'', JObj [])]),
            (''professional'', JObj [(''value'', JObj [])]),
            (''academic'', JObj [(''value'', JObj [])]),
            (''interests'', JObj [(''value'', JObj [])])])])])]) = Inl TypeError
   \<and> migrateActorData (JObj [(''data'', JObj [(''skills'', JObj
       [(''knowledge'', JObj []), (''language'', JObj [(''value'', JObj [])])])])])
     = Inl TypeError"
proof (rule conjI)
  let ?actor = "JObj [(''data'', JObj [(''skills'', JObj
       [(''active'', JObj []),
        (''knowledge'', JObj
           [(''street'', JObj [(''value'', JObj [])]),
            (''professional'', JObj [(''value'', JObj [])]),
            (''academic'', JObj [(''value'', JObj [])]),
            (''interests'', JObj [(''value'', JObj [])])])])])]"
  have "(''data.skills.language.value'', [''data'', ''skills'', ''language'', ''value''])
      \<in> set skill_groups"
    by (simp add: skill_groups_def)
  moreover have "get_path ?actor [''data'', ''skills'', ''language'', ''value''] = Inl TypeError"
    by (simp add: obj_get_def)
  ultimately show "migrateActorData ?actor = Inl TypeError"
    using missing_group_throws [of "''data.skills.language.value''"
        "[''data'', ''skills'', ''language'', ''value'']" ?actor TypeError]
    by blast
next
  let ?actor = "JObj [(''data'', JObj [(''skills'', JObj
       [(''knowledge'', JObj []), (''language'', JObj [(''value'', JObj [])])])])]"
  have "(''data.skills.active'', [''data'', ''skills'', ''active'']) \<in> set skill_groups"
    by (simp add: skill_groups_def)
  moreover have "get_path ?actor [''data'', ''skills'', ''active''] = Inr JUndefined"
    by (simp add: obj_get_def)
  ultimately show "migrateActorData ?actor = Inl TypeError"
    using missing_group_throws [of "''data.skills.active''" "[''data'', ''skills'', ''active'']"
        ?actor TypeError]
    by blast
qed

section \<open>The overflow rule\<close>

lemma get_path_get_parts:
  assumes "get_path x ps = Inr v" and "v \<noteq> JUndefined"
  shows "get_parts x ps = v"
  using assms
proof (induction ps arbitrary: x)
  case Nil
  then show ?case by simp
next
  case (Cons p ps)
  from Cons.prems(1) obtain y where y: "get_prop x p = Inr y" and rest: "get_path y ps = Inr v"
    by (auto split: sum.splits)
  have "y \<noteq> JUndefined"
    using rest Cons.prems(2) by (cases ps) auto
  then obtain kvs where x: "x = JObj kvs" and "map_of kvs p = Some y"
    using y by (cases x) (auto simp: obj_get_def split: option.splits)
  then show ?case using Cons.IH [OF rest Cons.prems(2)] by simp
qed

lemma overflow_read:
  assumes "get_path actor [''data'', ''track'', ''physical'', ''overflow''] = Inr v"
    and "v \<noteq> JUndefined"
  shows "\<exists>d. get_prop actor ''data'' = Inr d \<and> getProperty d ''track.physical.overflow'' = v"
proof -
  from assms(1) obtain d where d: "get_prop actor ''data'' = Inr d"
    and rest: "get_path d [''track'', ''physical'', ''overflow''] = Inr v"
    by (auto split: sum.splits)
  have "get_parts d [''track'', ''physical'', ''overflow''] = v"
    by (rule get_path_get_parts [OF rest assms(2)])
  then show ?thesis using d by (simp add: getProperty_def)
qed

lemma migrateActorData_frame:
  assumes "migrateActorData actor = Inr p"
    and "k \<notin> fst ` set skill_groups" and "k \<noteq> ''items''"
  shows "\<exists>u1. migrateActorOverflow actor [] = Inr u1 \<and> obj_get p k = obj_get u1 k"
proof -
  from assms(1) obtain u1 u2 where u1: "migrateActorOverflow actor [] = Inr u1"
    and u2: "migrateActorSkills actor u1 = Inr u2"
    and p: "p = u2 \<or> (\<exists>its. p = obj_set u2 ''items'' its)"
    by (auto simp: migrateActorData_def split: sum.splits if_splits jv.splits prod.splits)
  have "obj_get u2 k = obj_get u1 k"
    using u2 assms(2) by (intro groups_frame) (simp_all add: migrateActorSkills_groups)
  moreover have "obj_get p k = obj_get u2 k"
    using p assms(3) by (auto simp: obj_get_obj_set)
  ultimately show ?thesis using u1 by simp
qed

text \<open>
  \<^bold>\<open>C7.\<close> For an actor whose \<^verbatim>\<open>data.track.physical.overflow\<close> is the number \<open>0\<close>, the
  overflow rule writes \<open>0\<close> to the patch under
  \<^verbatim>\<open>data.track.physical.overflow.value\<close> and under \<^verbatim>\<open>data.track.physical.overflow.max\<close>,
  and the patch of \<^verbatim>\<open>migrateActorData\<close>, when there is one, holds both. For an actor
  whose overflow is an object already, the rule leaves the patch as it is, and the
  patch of \<^verbatim>\<open>migrateActorData\<close> has neither key.
\<close>

theorem overflow_rule:
  "(get_path actor [''data'', ''track'', ''physical'', ''overflow''] = Inr (JNum 0)
      \<longrightarrow> migrateActorOverflow actor []
            = Inr [(''data.track.physical.overflow.value'', JNum 0),
                   (''data.track.physical.overflow.max'', JNum 0)]
          \<and> (migrateActorData actor = Inr p
              \<longrightarrow> obj_get p ''data.track.physical.overflow.value'' = JNum 0
                \<and> obj_get p ''data.track.physical.overflow.max'' = JNum 0))
   \<and> (get_path actor [''data'', ''track'', ''physical'', ''overflow''] = Inr (JObj ov)
      \<longrightarrow> migrateActorOverflow actor u = Inr u
          \<and> (migrateActorData actor = Inr p
              \<longrightarrow> obj_get p ''data.track.physical.overflow.value'' = JUndefined
                \<and> obj_get p ''data.track.physical.overflow.max'' = JUndefined))"
proof (intro conjI impI)
  assume "get_path actor [''data'', ''track'', ''physical'', ''overflow''] = Inr (JNum 0)"
  then obtain d where "get_prop actor ''data'' = Inr d"
    and "getProperty d ''track.physical.overflow'' = JNum 0"
    using overflow_read [of actor "JNum 0"] by auto
  then show rule: "migrateActorOverflow actor []
      = Inr [(''data.track.physical.overflow.value'', JNum 0),
             (''data.track.physical.overflow.max'', JNum 0)]"
    by (simp add: migrateActorOverflow_def)
  assume p: "migrateActorData actor = Inr p"
  show "obj_get p ''data.track.physical.overflow.value'' = JNum 0"
    using migrateActorData_frame [OF p, of "''data.track.physical.overflow.value''"] rule
    by (simp add: skill_groups_def obj_get_def)
  show "obj_get p ''data.track.physical.overflow.max'' = JNum 0"
    using migrateActorData_frame [OF p, of "''data.track.physical.overflow.max''"] rule
    by (simp add: skill_groups_def obj_get_def)
next
  assume "get_path actor [''data'', ''track'', ''physical'', ''overflow''] = Inr (JObj ov)"
  then obtain d where "get_prop actor ''data'' = Inr d"
    and "getProperty d ''track.physical.overflow'' = JObj ov"
    using overflow_read [of actor "JObj ov"] by auto
  then show rule: "migrateActorOverflow actor u = Inr u" for u
    by (simp add: migrateActorOverflow_def)
  assume p: "migrateActorData actor = Inr p"
  show "obj_get p ''data.track.physical.overflow.value'' = JUndefined"
    using migrateActorData_frame [OF p, of "''data.track.physical.overflow.value''"] rule [of "[]"]
    by (simp add: skill_groups_def obj_get_def)
  show "obj_get p ''data.track.physical.overflow.max'' = JUndefined"
    using migrateActorData_frame [OF p, of "''data.track.physical.overflow.max''"] rule [of "[]"]
    by (simp add: skill_groups_def obj_get_def)
qed

theorem overflow_rule_witness:
  "migrateActorOverflow (example_actor (JNum 0) (JObj []) (JArr [])) []
     = Inr [(''data.track.physical.overflow.value'', JNum 0),
            (''data.track.physical.overflow.max'', JNum 0)]
   \<and> (\<exists>p. migrateActorData (example_actor (JNum 0) (JObj []) (JArr [])) = Inr p
        \<and> obj_get p ''data.track.physical.overflow.value'' = JNum 0
        \<and> obj_get p ''data.track.physical.overflow.max'' = JNum 0)
   \<and> migrateActorOverflow
       (example_actor (JObj [(''value'', JNum 3), (''max'', JNum 5)]) (JObj []) (JArr [])) []
     = Inr []
   \<and> (\<exists>p. migrateActorData
          (example_actor (JObj [(''value'', JNum 3), (''max'', JNum 5)]) (JObj []) (JArr []))
          = Inr p
        \<and> obj_get p ''data.track.physical.overflow.value'' = JUndefined
        \<and> obj_get p ''data.track.physical.overflow.max'' = JUndefined)"
proof (intro conjI)
  let ?actor = "example_actor (JNum 0) (JObj []) (JArr [])"
  have read: "get_path ?actor [''data'', ''track'', ''physical'', ''overflow''] = Inr (JNum 0)"
    by (simp add: example_actor_def obj_get_def)
  then show "migrateActorOverflow ?actor []
     = Inr [(''data.track.physical.overflow.value'', JNum 0),
            (''data.track.physical.overflow.max'', JNum 0)]"
    using overflow_rule [of ?actor] by blast
  obtain p where p: "migrateActorData ?actor = Inr p"
    by (simp add: migrateActorData_def migrateActorOverflow_def getProperty_def
        migrateActorSkills_def migrate_group_def example_actor_def obj_get_def)
  then have "obj_get p ''data.track.physical.overflow.value'' = JNum 0
      \<and> obj_get p ''data.track.physical.overflow.max'' = JNum 0"
    using overflow_rule [of ?actor p] read by blast
  then show "\<exists>p. migrateActorData ?actor = Inr p
      \<and> obj_get p ''data.track.physical.overflow.value'' = JNum 0
      \<and> obj_get p ''data.track.physical.overflow.max'' = JNum 0"
    using p by blast
next
  let ?ov = "[(''value'', JNum 3), (''max'', JNum 5)]"
  let ?actor = "example_actor (JObj ?ov) (JObj []) (JArr [])"
  have read: "get_path ?actor [''data'', ''track'', ''physical'', ''overflow''] = Inr (JObj ?ov)"
    by (simp add: example_actor_def obj_get_def)
  then show "migrateActorOverflow ?actor [] = Inr []"
    using overflow_rule [of ?actor _ ?ov "[]"] by blast
  obtain p where p: "migrateActorData ?actor = Inr p"
    by (simp add: migrateActorData_def migrateActorOverflow_def getProperty_def
        migrateActorSkills_def migrate_group_def example_actor_def obj_get_def)
  then have "obj_get p ''data.track.physical.overflow.value'' = JUndefined
      \<and> obj_get p ''data.track.physical.overflow.max'' = JUndefined"
    using overflow_rule [of ?actor p ?ov] read by blast
  then show "\<exists>p. migrateActorData ?actor = Inr p
      \<and> obj_get p ''data.track.physical.overflow.value'' = JUndefined
      \<and> obj_get p ''data.track.physical.overflow.max'' = JUndefined"
    using p by blast
qed

section \<open>Owned items\<close>

lemma migrateItemData_error: "migrateItemData i = Inl e \<Longrightarrow> e = TypeError"
  by (auto simp: migrateItemData_def migrateItemsAddActions_def migrateItemsAddCapacity_def
      get_prop_Inl Let_def split: sum.splits if_splits elim: set_prop.elims)

lemma migrateItemData_changed_object:
  assumes "migrateItemData i = Inr u" and "u \<noteq> []"
  shows "\<exists>kvs. i = JObj kvs"
proof (cases i)
  case (JObj kvs)
  then show ?thesis by simp
qed (use assms in \<open>auto simp: migrateItemData_def migrateItemsAddActions_def
      migrateItemsAddCapacity_def\<close>)

lemma mergeObject_objects: "\<exists>m. mergeObject (JObj a) (JObj u) = Inr (JObj m)"
  by (simp add: mergeObject_def)

lemma migrate_items_defined:
  assumes "\<forall>i\<in>set its. \<exists>u. migrateItemData i = Inr u"
  shows "\<exists>h' merged. migrate_items h its = Inr (h', merged)"
  using assms
proof (induction its arbitrary: h)
  case Nil
  show ?case by simp
next
  case (Cons i its)
  then obtain u where u: "migrateItemData i = Inr u"
    by auto
  show ?case
  proof (cases "u = []")
    case True
    obtain h' merged where "migrate_items h its = Inr (h', merged)"
      using Cons by fastforce
    then show ?thesis using u True by (simp add: isObjectEmpty_def)
  next
    case False
    then obtain kvs where "i = JObj kvs"
      using migrateItemData_changed_object [OF u] by auto
    then obtain m where m: "mergeObject i (JObj u) = Inr m"
      using mergeObject_objects [of kvs u] by auto
    obtain h' merged where "migrate_items True its = Inr (h', merged)"
      using Cons by fastforce
    then show ?thesis using u False m by (simp add: isObjectEmpty_def)
  qed
qed

lemma migrate_items_result:
  assumes "migrate_items h its = Inr (h', merged)"
  shows "list_all2 (\<lambda>i m. \<exists>u. migrateItemData i = Inr u
            \<and> (if u = [] then m = i else mergeObject i (JObj u) = Inr m)) its merged
    \<and> (h' \<longleftrightarrow> h \<or> (\<exists>i\<in>set its. migrateItemData i \<noteq> Inr []))"
  using assms
proof (induction its arbitrary: h h' merged)
  case Nil
  then show ?case by simp
next
  case (Cons i its)
  from Cons.prems obtain u where u: "migrateItemData i = Inr u"
    by (auto split: sum.splits)
  show ?case
  proof (cases "u = []")
    case True
    then obtain rest where rest: "migrate_items h its = Inr (h', rest)" and "merged = i # rest"
      using Cons.prems u by (auto simp: isObjectEmpty_def split: sum.splits)
    then show ?thesis using Cons.IH [OF rest] u True by simp
  next
    case False
    then obtain m rest where m: "mergeObject i (JObj u) = Inr m"
      and rest: "migrate_items True its = Inr (h', rest)" and "merged = m # rest"
      using Cons.prems u by (auto simp: isObjectEmpty_def split: sum.splits)
    then show ?thesis using Cons.IH [OF rest] u False by simp
  qed
qed

lemma groups_no_items:
  assumes "migrateActorSkills actor u1 = Inr u2" and "migrateActorOverflow actor [] = Inr u1"
  shows "obj_get u2 ''items'' = JUndefined"
proof -
  have "obj_get u2 ''items'' = obj_get u1 ''items''"
    using assms(1) by (intro groups_frame [of actor u1 skill_groups])
      (simp_all add: migrateActorSkills_groups skill_groups_def)
  also have "obj_get u1 ''items'' = JUndefined"
    using assms(2) by (auto simp: migrateActorOverflow_def obj_get_def split: sum.splits if_splits)
  finally show ?thesis .
qed

lemma merge_entries_frame: "k \<notin> fst ` set b \<Longrightarrow> obj_get (merge_entries a b) k = obj_get a k"
  by (induction a b rule: merge_entries.induct) (auto simp: obj_get_obj_set)

lemma migrateItemData_shape:
  assumes "migrateItemData i = Inr u" and "u \<noteq> []"
  shows "\<exists>kvs d rest. i = JObj kvs \<and> get_prop i ''data'' = Inr d
    \<and> get_prop d ''action'' = Inr JUndefined
    \<and> u = [(''data'', JObj ((''action'', action) # rest))]
    \<and> (rest = [] \<or> rest = [(''capacity'', JNum 0)])"
proof -
  obtain kvs where i: "i = JObj kvs"
    using migrateItemData_changed_object [OF assms] by auto
  obtain t where t: "get_prop i ''type'' = Inr t"
    using i by simp
  obtain d where d: "get_prop i ''data'' = Inr d"
    using i by simp
  obtain u0 where u0: "migrateItemsAddActions i [] = Inr u0"
    and u: "migrateItemsAddCapacity i u0 = Inr u"
    using assms(1) by (auto simp: migrateItemData_def split: sum.splits)
  have fired: "u0 \<noteq> []"
  proof
    assume "u0 = []"
    then have "migrateItemsAddCapacity i [] = Inr u"
      using u by simp
    then show False
      using assms(2) t d
      by (auto simp: migrateItemsAddCapacity_def obj_get_def split: sum.splits if_splits)
  qed
  then have a: "get_prop d ''action'' = Inr JUndefined"
    and u0': "u0 = [(''data'', JObj [(''action'', action)])]"
    using u0 t d
    by (auto simp: migrateItemsAddActions_def obj_get_def split: sum.splits if_splits)
  have "u = u0 \<or> u = [(''data'', JObj [(''action'', action), (''capacity'', JNum 0)])]"
    using u t d unfolding u0'
    by (auto simp: migrateItemsAddCapacity_def obj_get_def split: sum.splits if_splits)
  then show ?thesis
    using i d a u0' by auto
qed

lemma expand_item_patch:
  assumes "rest = [] \<or> rest = [(''capacity'', JNum 0)]"
  shows "expandObject (JObj [(''data'', JObj ((''action'', action) # rest))])
    = JObj [(''data'', JObj ((''action'', action) # rest))]"
  using assms by (auto simp: action_def)

lemma merge_action:
  assumes "obj_get xo ''action'' = JUndefined"
    and "rest = [] \<or> rest = [(''capacity'', JNum 0)]"
  shows "obj_get (merge_entries xo ((''action'', action) # rest)) ''action'' = action"
proof -
  obtain af where af: "action = JObj af"
    by (simp add: action_def)
  have "map_of xo ''action'' = None \<or> map_of xo ''action'' = Some JUndefined"
    using assms(1) by (auto simp: obj_get_def split: option.splits)
  then have "merge_entries xo ((''action'', action) # rest)
      = merge_entries (obj_set xo ''action'' action) rest"
    by (auto simp: af)
  moreover have "''action'' \<notin> fst ` set rest"
    using assms(2) by auto
  ultimately show ?thesis
    by (simp add: merge_entries_frame obj_get_obj_set)
qed

lemma changed_item_fields:
  assumes "migrateItemData i = Inr u" and "u \<noteq> []" and "mergeObject i (JObj u) = Inr m"
  shows "get_path m [''data'', ''action''] = Inr action
    \<and> (\<forall>k. k \<noteq> ''data'' \<longrightarrow> get_prop m k = get_prop i k)"
proof -
  obtain kvs d rest where i: "i = JObj kvs" and d: "get_prop i ''data'' = Inr d"
    and a: "get_prop d ''action'' = Inr JUndefined"
    and u: "u = [(''data'', JObj ((''action'', action) # rest))]"
    and rest: "rest = [] \<or> rest = [(''capacity'', JNum 0)]"
    using migrateItemData_shape [OF assms(1,2)] by blast
  let ?vo = "(''action'', action) # rest"
  let ?x = "case map_of kvs ''data'' of
              Some (JObj xo) \<Rightarrow> JObj (merge_entries xo ?vo)
            | _ \<Rightarrow> JObj ?vo"
  have e: "expandObject (JObj u) = JObj [(''data'', JObj ?vo)]"
    using expand_item_patch [OF rest] by (simp only: u)
  have "mergeObject i (JObj u) = Inr (JObj (merge_entries kvs [(''data'', JObj ?vo)]))"
    unfolding mergeObject_def i e by simp
  moreover have "merge_entries kvs [(''data'', JObj ?vo)] = obj_set kvs ''data'' ?x"
    by simp
  ultimately have m: "m = JObj (obj_set kvs ''data'' ?x)"
    using assms(3) by simp
  have "get_prop ?x ''action'' = Inr action"
  proof (cases "\<exists>xo. map_of kvs ''data'' = Some (JObj xo)")
    case True
    then obtain xo where xo: "map_of kvs ''data'' = Some (JObj xo)"
      by auto
    then have "d = JObj xo"
      using d by (simp add: i obj_get_def)
    then have "obj_get xo ''action'' = JUndefined"
      using a by simp
    then show ?thesis
      using merge_action [OF _ rest, of xo] by (simp add: xo)
  next
    case False
    then have "?x = JObj ?vo"
      by (auto split: option.splits jv.splits)
    then show ?thesis by (simp add: obj_get_def)
  qed
  then have "get_path m [''data'', ''action''] = Inr action"
    by (simp add: m obj_get_obj_set)
  moreover have "\<forall>k. k \<noteq> ''data'' \<longrightarrow> get_prop m k = get_prop i k"
    by (simp add: m i obj_get_obj_set)
  ultimately show ?thesis by simp
qed

text \<open>
  \<^bold>\<open>C9.\<close> For an actor whose \<^verbatim>\<open>items\<close> is an array: when the rules on the actor's own
  data return and every owned item migrates, \<^verbatim>\<open>migrateActorData\<close> returns a patch. In
  every patch it returns, the field \<^verbatim>\<open>items\<close> is present exactly when some owned item
  has a patch that is not empty; it is then an array of the length of the original,
  position by position the original item where the item's patch is empty, and else
  \<^verbatim>\<open>mergeObject\<close> of the item and its patch: the patch's \<^verbatim>\<open>data.action\<close> is in the
  merged item, and the fields of the item outside \<^verbatim>\<open>data\<close> are as they were.
\<close>

theorem owned_items:
  assumes "get_prop actor ''items'' = Inr (JArr its)"
  shows "(migrateActorOverflow actor [] = Inr u1 \<and> migrateActorSkills actor u1 = Inr u2
          \<and> (\<forall>i\<in>set its. \<exists>u. migrateItemData i = Inr u)
        \<longrightarrow> (\<exists>p. migrateActorData actor = Inr p))
    \<and> (migrateActorData actor = Inr p
        \<longrightarrow> (obj_get p ''items'' \<noteq> JUndefined
              \<longleftrightarrow> (\<exists>i\<in>set its. migrateItemData i \<noteq> Inr []))
          \<and> (obj_get p ''items'' \<noteq> JUndefined
              \<longrightarrow> (\<exists>merged. obj_get p ''items'' = JArr merged \<and> length merged = length its
                    \<and> (\<forall>n<length its. \<exists>u. migrateItemData (its ! n) = Inr u
                          \<and> (if u = [] then merged ! n = its ! n
                              else mergeObject (its ! n) (JObj u) = Inr (merged ! n)
                                \<and> get_path (merged ! n) [''data'', ''action''] = Inr action
                                \<and> (\<forall>k. k \<noteq> ''data''
                                      \<longrightarrow> get_prop (merged ! n) k = get_prop (its ! n) k))))))"
proof (intro conjI impI)
  assume h: "migrateActorOverflow actor [] = Inr u1 \<and> migrateActorSkills actor u1 = Inr u2
      \<and> (\<forall>i\<in>set its. \<exists>u. migrateItemData i = Inr u)"
  then obtain h' merged where "migrate_items False its = Inr (h', merged)"
    using migrate_items_defined [of its False] by auto
  then show "\<exists>p. migrateActorData actor = Inr p"
    using h assms by (simp add: migrateActorData_def)
next
  assume p: "migrateActorData actor = Inr p"
  then obtain u1 u2 h' merged where u1: "migrateActorOverflow actor [] = Inr u1"
    and u2: "migrateActorSkills actor u1 = Inr u2"
    and merged: "migrate_items False its = Inr (h', merged)"
    and p': "p = (if h' then obj_set u2 ''items'' (JArr merged) else u2)"
    using assms by (auto simp: migrateActorData_def split: sum.splits if_splits)
  have none: "obj_get u2 ''items'' = JUndefined"
    by (rule groups_no_items [OF u2 u1])
  have res: "list_all2 (\<lambda>i m. \<exists>u. migrateItemData i = Inr u
            \<and> (if u = [] then m = i else mergeObject i (JObj u) = Inr m)) its merged"
    and flag: "h' \<longleftrightarrow> (\<exists>i\<in>set its. migrateItemData i \<noteq> Inr [])"
    using migrate_items_result [OF merged] by simp_all
  have present: "obj_get p ''items'' \<noteq> JUndefined \<longleftrightarrow> h'"
    using none by (simp add: p' obj_get_obj_set)
  show "obj_get p ''items'' \<noteq> JUndefined \<longleftrightarrow> (\<exists>i\<in>set its. migrateItemData i \<noteq> Inr [])"
    using present flag by simp
  assume "obj_get p ''items'' \<noteq> JUndefined"
  then have "obj_get p ''items'' = JArr merged"
    using present by (simp add: p' obj_get_obj_set)
  moreover have "length merged = length its"
    using res by (simp add: list_all2_lengthD)
  moreover have "\<forall>n<length its. \<exists>u. migrateItemData (its ! n) = Inr u
      \<and> (if u = [] then merged ! n = its ! n
          else mergeObject (its ! n) (JObj u) = Inr (merged ! n)
            \<and> get_path (merged ! n) [''data'', ''action''] = Inr action
            \<and> (\<forall>k. k \<noteq> ''data'' \<longrightarrow> get_prop (merged ! n) k = get_prop (its ! n) k))"
  proof (intro allI impI)
    fix n
    assume "n < length its"
    then obtain u where u: "migrateItemData (its ! n) = Inr u"
      and c: "if u = [] then merged ! n = its ! n
              else mergeObject (its ! n) (JObj u) = Inr (merged ! n)"
      using res by (auto simp: list_all2_conv_all_nth)
    show "\<exists>u. migrateItemData (its ! n) = Inr u
      \<and> (if u = [] then merged ! n = its ! n
          else mergeObject (its ! n) (JObj u) = Inr (merged ! n)
            \<and> get_path (merged ! n) [''data'', ''action''] = Inr action
            \<and> (\<forall>k. k \<noteq> ''data'' \<longrightarrow> get_prop (merged ! n) k = get_prop (its ! n) k))"
    proof (cases "u = []")
      case True
      then show ?thesis using u c by auto
    next
      case False
      then have m: "mergeObject (its ! n) (JObj u) = Inr (merged ! n)"
        using c by simp
      show ?thesis
        using changed_item_fields [OF u False m] u False m by auto
    qed
  qed
  ultimately show "\<exists>merged. obj_get p ''items'' = JArr merged \<and> length merged = length its
      \<and> (\<forall>n<length its. \<exists>u. migrateItemData (its ! n) = Inr u
            \<and> (if u = [] then merged ! n = its ! n
                else mergeObject (its ! n) (JObj u) = Inr (merged ! n)
                  \<and> get_path (merged ! n) [''data'', ''action''] = Inr action
                  \<and> (\<forall>k. k \<noteq> ''data''
                        \<longrightarrow> get_prop (merged ! n) k = get_prop (its ! n) k)))"
    by blast
qed

theorem owned_items_witness:
  "\<exists>p merged.
     migrateActorData
       (example_actor (JObj [(''value'', JNum 0), (''max'', JNum 0)]) (JObj [])
          (JArr [JObj [(''type'', JStr ''weapon''), (''data'', JObj [])],
                 JObj [(''type'', JStr ''quality''), (''data'', JObj [])]])) = Inr p
     \<and> obj_get p ''items'' = JArr merged \<and> length merged = 2
     \<and> merged ! 0 = JObj [(''type'', JStr ''weapon''), (''data'', JObj [])]
     \<and> get_path (merged ! 1) [''data'', ''action''] = Inr action"
proof -
  let ?w = "JObj [(''type'', JStr ''weapon''), (''data'', JObj [])]"
  let ?q = "JObj [(''type'', JStr ''quality''), (''data'', JObj [])]"
  let ?actor = "example_actor (JObj [(''value'', JNum 0), (''max'', JNum 0)]) (JObj [])
      (JArr [?w, ?q])"
  have owned: "get_prop ?actor ''items'' = Inr (JArr [?w, ?q])"
    by (simp add: example_actor_def obj_get_def)
  have u1: "migrateActorOverflow ?actor [] = Inr []"
    by (simp add: migrateActorOverflow_def getProperty_def example_actor_def obj_get_def)
  obtain u2 where u2: "migrateActorSkills ?actor [] = Inr u2"
    by (simp add: migrateActorSkills_def migrate_group_def example_actor_def obj_get_def)
  have w: "migrateItemData ?w = Inr []"
    by (simp add: migrateItemData_def migrateItemsAddActions_def migrateItemsAddCapacity_def
        obj_get_def)
  have q: "migrateItemData ?q = Inr [(''data'', JObj [(''action'', action)])]"
    by (simp add: migrateItemData_def migrateItemsAddActions_def migrateItemsAddCapacity_def
        obj_get_def)
  have "\<forall>i\<in>set [?w, ?q]. \<exists>u. migrateItemData i = Inr u"
    using w q by simp
  then obtain p where p: "migrateActorData ?actor = Inr p"
    using owned_items [OF owned, of "[]" u2] u1 u2 by blast
  have "\<exists>i\<in>set [?w, ?q]. migrateItemData i \<noteq> Inr []"
    using q by simp
  then obtain merged where m: "obj_get p ''items'' = JArr merged"
    and len: "length merged = length [?w, ?q]"
    and each: "\<forall>n<length [?w, ?q]. \<exists>u. migrateItemData ([?w, ?q] ! n) = Inr u
        \<and> (if u = [] then merged ! n = [?w, ?q] ! n
            else mergeObject ([?w, ?q] ! n) (JObj u) = Inr (merged ! n)
              \<and> get_path (merged ! n) [''data'', ''action''] = Inr action
              \<and> (\<forall>k. k \<noteq> ''data''
                    \<longrightarrow> get_prop (merged ! n) k = get_prop ([?w, ?q] ! n) k))"
    using owned_items [OF owned, of _ _ p] p by blast
  have "merged ! 0 = ?w"
    using each [rule_format, of 0] w by simp
  moreover have "get_path (merged ! 1) [''data'', ''action''] = Inr action"
    using each [rule_format, of 1] q by simp
  ultimately show ?thesis
    using p m len by simp
qed

section \<open>Fault isolation in the orchestrator\<close>


























section \<open>A second run\<close>


















end
